theory Spec2Isabelle
  imports Main "HOL-Library.Multiset"
begin

section \<open>The users table (bot.py, DATABASE)\<close>

text \<open>
  The table \<^verbatim>\<open>users\<close> of \<^verbatim>\<open>init_db\<close> has the columns
  \<^verbatim>\<open>id BIGINT PRIMARY KEY, username, first_name, joined TIMESTAMP DEFAULT
  CURRENT_TIMESTAMP, active BOOLEAN DEFAULT TRUE\<close>. A row is a record; the optional
  columns are \<open>option\<close>s (Python \<^verbatim>\<open>None\<close>, SQL \<^verbatim>\<open>NULL\<close>). A timestamp is a
  number of microseconds, the resolution of the column. The column \<^verbatim>\<open>id\<close> is named
  \<open>user_id\<close>, after the parameter of the source, since \<open>id\<close> is the identity of HOL.

  The table is the list of its rows in the order of their insertion. A query with no
  \<^verbatim>\<open>ORDER BY\<close> returns its rows in an order that SQL leaves to the store: that order
  is an argument \<open>scan\<close> of the function that runs the query, which gives the rows
  of the table as the store returns them. The clock of the database
  (\<^verbatim>\<open>CURRENT_TIMESTAMP\<close>) and the clock of the process (\<^verbatim>\<open>datetime.now()\<close>) are
  arguments of the functions that read them. Connection failures of the database are
  outside the model: every query returns.
\<close>

type_synonym timestamp = int

record user =
  user_id :: int
  username :: "string option"
  first_name :: "string option"
  joined :: timestamp
  active :: bool

type_synonym users_table = "user list"

text \<open>The primary key: no two rows share an id.\<close>

definition primary_key :: "users_table \<Rightarrow> bool" where
  "primary_key tbl = distinct (map user_id tbl)"

text \<open>\<^verbatim>\<open>init_db\<close>: \<^verbatim>\<open>CREATE TABLE IF NOT EXISTS\<close>; an absent table is created empty, an
  existing one is kept.\<close>

definition init_db :: "users_table option \<Rightarrow> users_table" where
  "init_db existing = (case existing of None \<Rightarrow> [] | Some tbl \<Rightarrow> tbl)"

text \<open>\<^verbatim>\<open>add_user\<close>: \<^verbatim>\<open>INSERT ... ON CONFLICT (id) DO UPDATE SET username, first_name,
  active = TRUE\<close>. A new row takes the defaults of the table: \<open>joined\<close> is the clock of
  the database, \<open>active\<close> is true. On a conflict \<open>joined\<close> is not assigned.\<close>

definition add_user ::
  "timestamp \<Rightarrow> int \<Rightarrow> string option \<Rightarrow> string option \<Rightarrow> users_table \<Rightarrow> users_table" where
  "add_user current_timestamp uid uname fname tbl =
     (if uid \<in> set (map user_id tbl)
      then map (\<lambda>r. if user_id r = uid
                     then r\<lparr>username := uname, first_name := fname, active := True\<rparr>
                     else r) tbl
      else tbl @ [\<lparr>user_id = uid, username = uname, first_name = fname,
                   joined = current_timestamp, active = True\<rparr>])"

text \<open>\<^verbatim>\<open>get_all_user_ids\<close>: \<^verbatim>\<open>SELECT id FROM users WHERE active = TRUE\<close>, with no
  \<^verbatim>\<open>ORDER BY\<close>: the ids come in the order in which the store returns the rows.\<close>

definition get_all_user_ids :: "(users_table \<Rightarrow> user list) \<Rightarrow> users_table \<Rightarrow> int list" where
  "get_all_user_ids scan tbl = map user_id (filter active (scan tbl))"

text \<open>\<^verbatim>\<open>mark_inactive\<close>: \<^verbatim>\<open>UPDATE users SET active = FALSE WHERE id = %s\<close>.\<close>

definition mark_inactive :: "int \<Rightarrow> users_table \<Rightarrow> users_table" where
  "mark_inactive uid tbl = map (\<lambda>r. if user_id r = uid then r\<lparr>active := False\<rparr> else r) tbl"

text \<open>\<^verbatim>\<open>get_stats\<close>: three counts; the third compares \<open>joined\<close> with
  \<^verbatim>\<open>datetime.now() - timedelta(hours=24)\<close>, strictly. The key \<^verbatim>\<open>active\<close> of the
  returned dictionary is the field \<open>active_count\<close> (\<open>active\<close> is the column).\<close>

record stats =
  total :: nat
  new_24h :: nat
  active_count :: nat

definition hours :: "int \<Rightarrow> timestamp" where
  "hours n = n * 3600 * 1000000"

definition get_stats :: "timestamp \<Rightarrow> users_table \<Rightarrow> stats" where
  "get_stats now tbl =
     (let day_ago = now - hours 24
      in \<lparr>total = length tbl,
          new_24h = length (filter (\<lambda>r. joined r > day_ago) tbl),
          active_count = length (filter active tbl)\<rparr>)"

text \<open>\<^verbatim>\<open>export_users\<close>: \<^verbatim>\<open>SELECT id, username, first_name, joined, active FROM users
  ORDER BY joined DESC\<close>. The sort is by the negated timestamp, ascending. SQL leaves the
  order of rows with equal \<open>joined\<close> open; here they keep their table order.\<close>

definition export_users :: "users_table \<Rightarrow> user list" where
  "export_users tbl = sort_key (\<lambda>r. - joined r) tbl"

section \<open>Strings, JSON values and the calls of the chat platform\<close>

text \<open>
  A Python \<^verbatim>\<open>str\<close> is a list of \<open>char\<close>, each read as a code point below 256;
  code points above are outside the model. \<open>lower\<close>, \<open>isspace\<close> and \<open>strip\<close> follow
  \<^verbatim>\<open>str.lower\<close>, \<^verbatim>\<open>str.isspace\<close> and \<^verbatim>\<open>str.strip\<close> on that range.
\<close>

definition lower_char :: "char \<Rightarrow> char" where
  "lower_char c =
     (let n = (of_char c :: nat)
      in if (65 \<le> n \<and> n \<le> 90) \<or> (192 \<le> n \<and> n \<le> 214) \<or> (216 \<le> n \<and> n \<le> 222)
         then char_of (n + 32) else c)"

definition lower :: "string \<Rightarrow> string" where
  "lower s = map lower_char s"

definition isspace :: "char \<Rightarrow> bool" where
  "isspace c =
     (let n = (of_char c :: nat)
      in (9 \<le> n \<and> n \<le> 13) \<or> (28 \<le> n \<and> n \<le> 32) \<or> n = 133 \<or> n = 160)"

definition strip :: "string \<Rightarrow> string" where
  "strip s = rev (dropWhile isspace (rev (dropWhile isspace s)))"

text \<open>\<^verbatim>\<open>s.startswith(p)\<close>.\<close>

fun startswith :: "string \<Rightarrow> string \<Rightarrow> bool" where
  "startswith s [] = True"
| "startswith [] (p # ps) = False"
| "startswith (c # cs) (p # ps) = (c = p \<and> startswith cs ps)"

text \<open>\<^verbatim>\<open>needle in haystack\<close> on strings.\<close>

fun contains :: "string \<Rightarrow> string \<Rightarrow> bool" where
  "contains [] needle = (needle = [])"
| "contains (c # cs) needle = (startswith (c # cs) needle \<or> contains cs needle)"

text \<open>\<^verbatim>\<open>s.replace(old, new)\<close>: every occurrence of \<open>old\<close>, from the left, without
  overlap; with an empty \<open>old\<close>, \<open>new\<close> goes before every character and at the end.\<close>

function replace :: "string \<Rightarrow> string \<Rightarrow> string \<Rightarrow> string" where
  "replace old new [] = (if old = [] then new else [])"
| "replace old new (c # cs) =
     (if old = [] then new @ c # replace old new cs
      else if startswith (c # cs) old then new @ replace old new (drop (length old) (c # cs))
      else c # replace old new cs)"
  by pat_completeness auto
termination
  by (relation "measure (\<lambda>(old, new, s). length s)") auto

text \<open>\<^verbatim>\<open>s.split(sep)\<close> for a separator of one character, and the item at an index,
  which raises \<^verbatim>\<open>IndexError\<close> out of range.\<close>

fun split :: "char \<Rightarrow> string \<Rightarrow> string list" where
  "split sep [] = [[]]"
| "split sep (c # cs) =
     (if c = sep then [] # split sep cs
      else (case split sep cs of [] \<Rightarrow> [[c]] | w # ws \<Rightarrow> (c # w) # ws))"

datatype py_error =
    JSONDecodeError
  | AttributeError
  | IndexError
  | BinasciiError
  | ValueError
  | TelegramError string


text \<open>A value returned by \<^verbatim>\<open>json.loads\<close> or \<^verbatim>\<open>resp.json()\<close>. An object is the list
  of the items of the Python dictionary, its keys distinct. Numbers are integers.\<close>

datatype json =
    JNull
  | JBool bool
  | JNum int
  | JStr string
  | JArr "json list"
  | JObj "(string \<times> json) list"


type_synonym bytes = "char list"





text \<open>The incoming message: the sender and the text. The configuration: \<^verbatim>\<open>ADMIN_ID\<close>,
  which is \<^verbatim>\<open>int(os.getenv("ADMIN_ID", "0"))\<close>.\<close>

record message =
  from_user_id :: int
  from_user_username :: "string option"
  from_user_first_name :: "string option"
  message_text :: string

record config =
  ADMIN_ID :: int

text \<open>The texts the bot writes are constructors that carry the values the source
  formats into them. A cell of the CSV is the value given to \<^verbatim>\<open>writer.writerow\<close>.\<close>

datatype cell = CInt int | CStr string | CTime timestamp | CBool bool

datatype document =
    UsersCsv "cell list list" timestamp
  | UpscaledPng bytes timestamp

datatype reply =
    StartMenu
  | HelpText
  | StatsText stats
  | ExportCaption nat
  | ExportError string
  | BroadcastUsage
  | BroadcastStarted nat
  | BroadcastProgress nat nat
  | BroadcastDone nat nat
  | OpenUpscaler
  | ResultCaption
  | WebappError

text \<open>The calls made on the chat platform, in order, and the pause of the broadcast.
  \<open>SendMessage\<close> records the attempt, whether or not it is delivered.\<close>

datatype call =
    Answer reply
  | AnswerDocument document reply
  | SendMessage int string
  | EditText reply
  | Sleep

text \<open>What the platform does with a call the source wraps in \<^verbatim>\<open>try\<close>: \<open>None\<close> when it
  returns, \<open>Some e\<close> when it raises an exception whose \<^verbatim>\<open>str\<close> is \<open>e\<close>. The calls
  \<^verbatim>\<open>message.answer\<close> and \<^verbatim>\<open>status_msg.edit_text\<close> return.\<close>

record platform =
  send_message_raises :: "int \<Rightarrow> string \<Rightarrow> string option"
  answer_document_raises :: "document \<Rightarrow> string option"

text \<open>The state the handlers act on: the table and the calls made so far. The handlers of
  one event run here with no other handler in between.\<close>

record world =
  users :: users_table
  calls :: "call list"

definition emit :: "call \<Rightarrow> world \<Rightarrow> world" where
  "emit c w = w\<lparr>calls := calls w @ [c]\<rparr>"

section \<open>The handlers of the bot (bot.py, BOT HANDLERS)\<close>

definition cmd_start :: "timestamp \<Rightarrow> message \<Rightarrow> world \<Rightarrow> world" where
  "cmd_start current_timestamp m w =
     emit (Answer StartMenu)
       (w\<lparr>users := add_user current_timestamp (from_user_id m) (from_user_username m)
                     (from_user_first_name m) (users w)\<rparr>)"

definition cmd_help :: "message \<Rightarrow> world \<Rightarrow> world" where
  "cmd_help m w = emit (Answer HelpText) w"

text \<open>\<^verbatim>\<open>if ADMIN_ID and message.from_user.id != ADMIN_ID: return\<close>; an integer is true
  when it is not zero.\<close>

definition cmd_stats :: "config \<Rightarrow> timestamp \<Rightarrow> message \<Rightarrow> world \<Rightarrow> world" where
  "cmd_stats cfg now m w =
     (if ADMIN_ID cfg \<noteq> 0 \<and> from_user_id m \<noteq> ADMIN_ID cfg then w
      else emit (Answer (StatsText (get_stats now (users w)))) w)"

definition csv_row :: "user \<Rightarrow> cell list" where
  "csv_row u =
     [CInt (user_id u),
      CStr (case username u of None \<Rightarrow> [] | Some s \<Rightarrow> s),
      CStr (case first_name u of None \<Rightarrow> [] | Some s \<Rightarrow> s),
      CTime (joined u),
      CBool (active u)]"

definition cmd_export :: "platform \<Rightarrow> config \<Rightarrow> timestamp \<Rightarrow> message \<Rightarrow> world \<Rightarrow> world" where
  "cmd_export tg cfg now m w =
     (if ADMIN_ID cfg \<noteq> 0 \<and> from_user_id m \<noteq> ADMIN_ID cfg then w
      else
        (let rows = export_users (users w);
             file = UsersCsv
               ([CStr ''ID'', CStr ''Username'', CStr ''Name'', CStr ''Joined'', CStr ''Active'']
                  # map csv_row rows) now;
             w1 = emit (AnswerDocument file (ExportCaption (length rows))) w
         in case answer_document_raises tg file of
              None \<Rightarrow> w1
            | Some e \<Rightarrow> emit (Answer (ExportError e)) w1))"

text \<open>One turn of the loop of \<^verbatim>\<open>cmd_broadcast\<close>: the \<^verbatim>\<open>try\<close> around
  \<^verbatim>\<open>bot.send_message\<close>, with the counters \<open>sent\<close> and \<open>failed\<close>.\<close>

definition attempt ::
  "platform \<Rightarrow> string \<Rightarrow> int \<Rightarrow> nat \<times> nat \<times> world \<Rightarrow> nat \<times> nat \<times> world" where
  "attempt tg txt uid acc =
     (case acc of (sent, failed, w) \<Rightarrow>
        (let w1 = emit (SendMessage uid txt) w
         in case send_message_raises tg uid txt of
              None \<Rightarrow> (sent + 1, failed, w1)
            | Some e \<Rightarrow>
                (sent, failed + 1,
                 if contains (lower e) ''blocked'' \<or> contains (lower e) ''deactivated''
                 then w1\<lparr>users := mark_inactive uid (users w1)\<rparr>
                 else w1)))"

text \<open>\<^verbatim>\<open>for i, user_id in enumerate(user_ids)\<close>: \<open>i\<close> is the index of the head of the
  remaining list, \<open>n\<close> is \<^verbatim>\<open>len(user_ids)\<close>.\<close>

fun broadcast_loop ::
  "platform \<Rightarrow> string \<Rightarrow> nat \<Rightarrow> nat \<Rightarrow> int list \<Rightarrow> nat \<times> nat \<times> world \<Rightarrow> nat \<times> nat \<times> world" where
  "broadcast_loop tg txt n i [] acc = acc"
| "broadcast_loop tg txt n i (uid # rest) acc =
     (case attempt tg txt uid acc of (sent, failed, w) \<Rightarrow>
        (let w1 = (if (i + 1) mod 20 = 0
                   then emit (EditText (BroadcastProgress (i + 1) n)) w else w);
             w2 = emit Sleep w1
         in broadcast_loop tg txt n (i + 1) rest (sent, failed, w2)))"

definition cmd_broadcast ::
  "platform \<Rightarrow> (users_table \<Rightarrow> user list) \<Rightarrow> config \<Rightarrow> message \<Rightarrow> world \<Rightarrow> world" where
  "cmd_broadcast tg scan cfg m w =
     (if ADMIN_ID cfg \<noteq> 0 \<and> from_user_id m \<noteq> ADMIN_ID cfg then w
      else
        (let txt = strip (replace ''/broadcast'' [] (message_text m))
         in if txt = [] then emit (Answer BroadcastUsage) w
            else
              (let user_ids = get_all_user_ids scan (users w);
                   w1 = emit (Answer (BroadcastStarted (length user_ids))) w
               in case broadcast_loop tg txt (length user_ids) 0 user_ids (0, 0, w1) of
                    (sent, failed, w2) \<Rightarrow> emit (EditText (BroadcastDone sent failed)) w2)))"

definition handle_photo :: "message \<Rightarrow> world \<Rightarrow> world" where
  "handle_photo m w = emit (Answer OpenUpscaler) w"



section \<open>The HTTP endpoint (bot.py, HTTP API)\<close>

text \<open>
  \<^verbatim>\<open>handle_upscale\<close>. The request is the outcome of reading the multipart body: the
  text of the exception when reading raises, or the parts with their names and contents.
  The provider is two functions: the POST to \<^verbatim>\<open>api.deepai.org/api/waifu2x\<close> with
  \<^verbatim>\<open>resp.json()\<close>, and the GET of the output URL; each gives the text of the exception
  when it raises. The JSON of the provider is a dictionary. \<open>b64encode\<close> is
  \<^verbatim>\<open>base64.b64encode(...).decode('utf-8')\<close>. The result is the response and the
  requests made to the provider.
\<close>

record provider =
  post_waifu2x :: "bytes \<Rightarrow> string + (string \<times> json) list"
  get_output :: "json \<Rightarrow> string + bytes"
  b64encode :: "bytes \<Rightarrow> string"

datatype provider_call = PostWaifu2x bytes | GetOutput json

record response =
  status :: nat
  body :: "(string \<times> json) list"

definition json_response :: "(string \<times> json) list \<Rightarrow> nat \<Rightarrow> response" where
  "json_response data st = \<lparr>status = st, body = data\<rparr>"

text \<open>The loop over the parts: the last part named \<^verbatim>\<open>image\<close> is kept.\<close>

fun read_image :: "bytes option \<Rightarrow> (string option \<times> bytes) list \<Rightarrow> bytes option" where
  "read_image image_data [] = image_data"
| "read_image image_data ((name, content) # parts) =
     read_image (if name = Some ''image'' then Some content else image_data) parts"

definition handle_upscale ::
  "provider \<Rightarrow> string + (string option \<times> bytes) list \<Rightarrow> response \<times> provider_call list" where
  "handle_upscale deepai multipart =
     (case multipart of
        Inl e \<Rightarrow> (json_response [(''error'', JStr e)] 500, [])
      | Inr parts \<Rightarrow>
          (case read_image None parts of
             None \<Rightarrow> (json_response [(''error'', JStr ''No image provided'')] 400, [])
           | Some image_data \<Rightarrow>
               if image_data = [] then
                 (json_response [(''error'', JStr ''No image provided'')] 400, [])
               else
                 (case post_waifu2x deepai image_data of
                    Inl e \<Rightarrow> (json_response [(''error'', JStr e)] 500, [PostWaifu2x image_data])
                  | Inr result \<Rightarrow>
                      (case map_of result ''output_url'' of
                         Some url \<Rightarrow>
                           (case get_output deepai url of
                              Inl e \<Rightarrow>
                                (json_response [(''error'', JStr e)] 500,
                                 [PostWaifu2x image_data, GetOutput url])
                            | Inr img_bytes \<Rightarrow>
                                (json_response
                                   [(''success'', JBool True),
                                    (''output_url'', url),
                                    (''image_base64'',
                                     JStr (''data:image/png;base64,'' @ b64encode deepai img_bytes))]
                                   200,
                                 [PostWaifu2x image_data, GetOutput url]))
                       | None \<Rightarrow>
                           (json_response
                              [(''success'', JBool False),
                               (''error'',
                                case map_of result ''err'' of
                                  None \<Rightarrow> JStr ''Unknown error'' | Some v \<Rightarrow> v)]
                              500,
                            [PostWaifu2x image_data])))))"

section \<open>Reading the calls, and the inputs of the examples\<close>

text \<open>A call of \<^verbatim>\<open>bot.send_message\<close>, the delivery to a recipient.\<close>

fun is_send :: "call \<Rightarrow> bool" where
  "is_send (SendMessage u t) = True"
| "is_send c = False"

text \<open>A platform where every call returns, one where the recipients of a list have
  blocked the bot, a message of a sender, and a row of the table.\<close>

definition quiet_platform :: platform where
  "quiet_platform =
     \<lparr>send_message_raises = (\<lambda>uid txt. None),
      answer_document_raises = (\<lambda>file. None)\<rparr>"

definition blocking_platform :: "int list \<Rightarrow> platform" where
  "blocking_platform blocked =
     \<lparr>send_message_raises =
        (\<lambda>uid txt. if uid \<in> set blocked
                    then Some ''Telegram server says - Forbidden: bot was blocked by the user''
                    else None),
      answer_document_raises = (\<lambda>file. None)\<rparr>"

definition sender :: "int \<Rightarrow> string \<Rightarrow> message" where
  "sender uid txt =
     \<lparr>from_user_id = uid, from_user_username = None, from_user_first_name = None,
      message_text = txt\<rparr>"

definition row :: "int \<Rightarrow> timestamp \<Rightarrow> bool \<Rightarrow> user" where
  "row uid t a = \<lparr>user_id = uid, username = None, first_name = None, joined = t, active = a\<rparr>"

text \<open>Two orders in which a store may return the rows: the order of insertion, and
  the order of a store that has written the new version of the row of one id after the
  other rows, as a store that keeps old versions does on an update.\<close>

definition insertion_order :: "users_table \<Rightarrow> user list" where
  "insertion_order tbl = tbl"

definition rewritten_last :: "int \<Rightarrow> users_table \<Rightarrow> user list" where
  "rewritten_last uid tbl =
     filter (\<lambda>r. user_id r \<noteq> uid) tbl @ filter (\<lambda>r. user_id r = uid) tbl"

text \<open>Following the usage text of \<^verbatim>\<open>cmd_broadcast\<close>,
  \<^verbatim>\<open>/broadcast <message>\<close>: the text of a broadcast command is what follows the
  command word at the head of the message, stripped.\<close>

definition command_text :: "string \<Rightarrow> string" where
  "command_text msg = strip (drop (length ''/broadcast'') msg)"

text \<open>A provider that answers with an output URL.\<close>

definition stub_provider :: provider where
  "stub_provider =
     \<lparr>post_waifu2x = (\<lambda>image. Inr [(''output_url'', JStr ''https://api.deepai.org/out.png'')]),
      get_output = (\<lambda>url. Inr ''PNG''),
      b64encode = (\<lambda>b. ''UE5H'')\<rparr>"

text \<open>The condition under which the loop of \<^verbatim>\<open>cmd_broadcast\<close> calls
  \<^verbatim>\<open>mark_inactive\<close> for a recipient, and a table of six active rows.\<close>

definition fails_permanently :: "platform \<Rightarrow> string \<Rightarrow> int \<Rightarrow> bool" where
  "fails_permanently tg txt uid =
     (case send_message_raises tg uid txt of
        None \<Rightarrow> False
      | Some e \<Rightarrow> contains (lower e) ''blocked'' \<or> contains (lower e) ''deactivated'')"

definition six_users :: world where
  "six_users =
     \<lparr>users = [row 1 10 True, row 2 20 True, row 3 30 True, row 4 40 True, row 5 50 True,
               row 6 60 True],
      calls = []\<rparr>"

section \<open>Registry: upsert\<close>

lemma add_user_ids:
  "map user_id (add_user t uid un fn tbl) =
     (if uid \<in> set (map user_id tbl) then map user_id tbl else map user_id tbl @ [uid])"
  by (induction tbl) (auto simp: add_user_def)

lemma primary_key_add_user: "primary_key tbl \<Longrightarrow> primary_key (add_user t uid un fn tbl)"
  by (simp add: primary_key_def add_user_ids)

lemma primary_key_mark_inactive: "primary_key tbl \<Longrightarrow> primary_key (mark_inactive uid tbl)"
proof -
  have "map user_id (mark_inactive uid tbl) = map user_id tbl"
    by (induction tbl) (auto simp: mark_inactive_def)
  then show "primary_key tbl \<Longrightarrow> primary_key (mark_inactive uid tbl)"
    by (simp add: primary_key_def)
qed

lemma primary_key_init_db: "primary_key (init_db None)"
  by (simp add: primary_key_def init_db_def)

lemma filter_id_absent: "uid \<notin> set (map user_id tbl) \<Longrightarrow> filter (\<lambda>r. user_id r = uid) tbl = []"
  by (induction tbl) auto

lemma filter_id_present:
  "distinct (map user_id tbl) \<Longrightarrow> uid \<in> set (map user_id tbl) \<Longrightarrow>
   \<exists>r. filter (\<lambda>r. user_id r = uid) tbl = [r]"
proof (induction tbl)
  case Nil
  then show ?case by simp
next
  case (Cons a tbl)
  show ?case
  proof (cases "user_id a = uid")
    case True
    with Cons.prems have "uid \<notin> set (map user_id tbl)" by auto
    then have "filter (\<lambda>r. user_id r = uid) tbl = []" by (rule filter_id_absent)
    with True show ?thesis by simp
  next
    case False
    with Cons show ?thesis by auto
  qed
qed

lemma filter_id_update:
  "filter (\<lambda>r. user_id r = uid)
     (map (\<lambda>r. if user_id r = uid then r\<lparr>username := un, first_name := fn, active := True\<rparr> else r) tbl)
   = map (\<lambda>r. r\<lparr>username := un, first_name := fn, active := True\<rparr>) (filter (\<lambda>r. user_id r = uid) tbl)"
  by (induction tbl) auto

lemma filter_other_update:
  "v \<noteq> uid \<Longrightarrow> (\<And>r. user_id (f r) = user_id r) \<Longrightarrow>
   filter (\<lambda>r. user_id r = v) (map (\<lambda>r. if user_id r = uid then f r else r) tbl)
     = filter (\<lambda>r. user_id r = v) tbl"
  by (induction tbl) auto

lemma filter_other_add_user:
  "v \<noteq> uid \<Longrightarrow>
   filter (\<lambda>r. user_id r = v) (add_user t uid un fn tbl) = filter (\<lambda>r. user_id r = v) tbl"
  using filter_other_update [of v uid "\<lambda>r. r\<lparr>username := un, first_name := fn, active := True\<rparr>" tbl]
  by (simp add: add_user_def)

lemma add_user_row:
  assumes "primary_key tbl"
  shows "\<exists>r. filter (\<lambda>r. user_id r = uid) (add_user t uid un fn tbl) = [r] \<and>
             username r = un \<and> first_name r = fn \<and> active r \<and>
             joined r = (case filter (\<lambda>r. user_id r = uid) tbl of [] \<Rightarrow> t | old # _ \<Rightarrow> joined old)"
proof (cases "uid \<in> set (map user_id tbl)")
  case True
  with assms obtain old where old: "filter (\<lambda>r. user_id r = uid) tbl = [old]"
    using filter_id_present unfolding primary_key_def by blast
  from True have "add_user t uid un fn tbl =
      map (\<lambda>r. if user_id r = uid then r\<lparr>username := un, first_name := fn, active := True\<rparr> else r) tbl"
    by (simp add: add_user_def)
  then have "filter (\<lambda>r. user_id r = uid) (add_user t uid un fn tbl) =
      [old\<lparr>username := un, first_name := fn, active := True\<rparr>]"
    by (simp add: filter_id_update old)
  then show ?thesis by (simp add: old)
next
  case False
  then have none: "filter (\<lambda>r. user_id r = uid) tbl = []" by (rule filter_id_absent)
  from False have "filter (\<lambda>r. user_id r = uid) (add_user t uid un fn tbl) =
      [\<lparr>user_id = uid, username = un, first_name = fn, joined = t, active = True\<rparr>]"
    by (simp add: add_user_def none)
  then show ?thesis by (simp add: none)
qed

text \<open>
  C3. Two calls of \<open>add_user\<close> with the same id and different username and first name,
  on a table that respects its primary key: the table then holds exactly one row of that
  id, the row carries the username and first name of the second call, it is active, and
  the rows of every other id are what they were.
\<close>

theorem add_user_twice_last_writer_wins:
  assumes "primary_key tbl"
  shows "\<exists>r. filter (\<lambda>r. user_id r = uid)
               (add_user t2 uid un2 fn2 (add_user t1 uid un1 fn1 tbl)) = [r] \<and>
             username r = un2 \<and> first_name r = fn2 \<and> active r \<and>
             (\<forall>v. v \<noteq> uid \<longrightarrow>
                filter (\<lambda>r. user_id r = v) (add_user t2 uid un2 fn2 (add_user t1 uid un1 fn1 tbl))
                  = filter (\<lambda>r. user_id r = v) tbl)"
proof -
  have pk: "primary_key (add_user t1 uid un1 fn1 tbl)"
    using assms by (rule primary_key_add_user)
  from add_user_row [OF pk, of uid t2 un2 fn2]
  obtain r where "filter (\<lambda>r. user_id r = uid)
       (add_user t2 uid un2 fn2 (add_user t1 uid un1 fn1 tbl)) = [r]"
     and "username r = un2" "first_name r = fn2" "active r"
    by blast
  then show ?thesis by (auto simp: filter_other_add_user)
qed

theorem add_user_twice_witness:
  "primary_key [] \<and>
   (\<exists>r. filter (\<lambda>r. user_id r = 7)
            (add_user 20 7 (Some ''bob'') (Some ''Bob'') (add_user 10 7 (Some ''al'') None [])) = [r] \<and>
         username r = Some ''bob'' \<and> first_name r = Some ''Bob'' \<and> active r)"
proof -
  have pk: "primary_key []" by (simp add: primary_key_def)
  from add_user_twice_last_writer_wins [OF pk, of 7 20 "Some ''bob''" "Some ''Bob''" 10 "Some ''al''" None]
  show ?thesis using pk by blast
qed

section \<open>Registry: the active ids\<close>

lemma active_by_id:
  assumes "distinct (map user_id tbl)" and "r \<in> set tbl"
  shows "(\<exists>q \<in> set tbl. user_id q = user_id r \<and> active q) = active r"
proof -
  from assms(1) have "inj_on user_id (set tbl)" by (simp add: distinct_map)
  with assms(2) show ?thesis by (auto dest: inj_onD)
qed

lemma active_ids_filter:
  assumes "distinct (map user_id tbl)"
  shows "map user_id (filter active tbl)
     = filter (\<lambda>u. \<exists>r \<in> set tbl. user_id r = u \<and> active r) (map user_id tbl)"
proof -
  have "filter active tbl = filter (\<lambda>r. \<exists>q \<in> set tbl. user_id q = user_id r \<and> active q) tbl"
    using active_by_id [OF assms] by (intro filter_cong) auto
  then show ?thesis
    by (simp add: filter_map comp_def)
qed

lemma joined_update:
  "map joined (map (\<lambda>r. if user_id r = uid
       then r\<lparr>username := un, first_name := fn, active := True\<rparr> else r) tbl) = map joined tbl"
  by (induction tbl) auto

lemma add_user_joined:
  "map joined (add_user t uid un fn tbl) =
     (if uid \<in> set (map user_id tbl) then map joined tbl else map joined tbl @ [t])"
  by (simp add: add_user_def joined_update del: map_map)

lemma sorted_add_user:
  assumes "sorted (map joined tbl)" and "\<forall>r \<in> set tbl. joined r \<le> t"
  shows "sorted (map joined (add_user t uid un fn tbl))"
  using assms unfolding add_user_joined by (auto simp: sorted_append)

lemma sorted_mark_inactive:
  "sorted (map joined tbl) \<Longrightarrow> sorted (map joined (mark_inactive uid tbl))"
proof -
  have "map joined (mark_inactive uid tbl) = map joined tbl"
    by (induction tbl) (auto simp: mark_inactive_def)
  then show "sorted (map joined tbl) \<Longrightarrow> sorted (map joined (mark_inactive uid tbl))" by simp
qed

lemma rewritten_last_mset: "mset (rewritten_last uid tbl) = mset tbl"
  by (induction tbl) (auto simp: rewritten_last_def)

text \<open>
  C8, as stated, fails: the query has no \<^verbatim>\<open>ORDER BY\<close>, so the order of the ids is
  the order in which the store returns the rows, and that need not be the order of
  insertion. The ids 1, 2 and 3 are inserted in that order, at join times that increase,
  and 1 is upserted again. A store that has written the new version of the row of 1
  after the other rows returns the rows of 2, 3 and 1, each row of the table once, and
  \<open>get_all_user_ids\<close> is then 2, 3, 1, not the insertion order 1, 2, 3.
\<close>

theorem get_all_user_ids_store_order_counterexample:
  "map user_id (add_user 40 1 None None (add_user 30 3 None None (add_user 20 2 None None
      (add_user 10 1 None None (init_db None))))) = [1, 2, 3] \<and>
   map joined (add_user 40 1 None None (add_user 30 3 None None (add_user 20 2 None None
      (add_user 10 1 None None (init_db None))))) = [10, 20, 30] \<and>
   mset (rewritten_last 1 (add_user 40 1 None None (add_user 30 3 None None
      (add_user 20 2 None None (add_user 10 1 None None (init_db None))))))
     = mset (add_user 40 1 None None (add_user 30 3 None None (add_user 20 2 None None
      (add_user 10 1 None None (init_db None))))) \<and>
   get_all_user_ids (rewritten_last 1) (add_user 40 1 None None (add_user 30 3 None None
      (add_user 20 2 None None (add_user 10 1 None None (init_db None))))) = [2, 3, 1]"
  by (simp add: rewritten_last_mset)
    (simp add: add_user_def init_db_def get_all_user_ids_def rewritten_last_def)

text \<open>
  C8, amended. On a table that respects its primary key, whatever the order in which the
  store returns the rows of the table, each once: \<open>get_all_user_ids\<close> returns the ids of
  the rows flagged active and no other, each once, in the order of the store: it is the
  list of the ids of the rows as the store returns them, with the ids of inactive rows
  left out. The result is a function of the table and of that order. When the store
  returns the rows in the order of insertion, the ids are in the order of insertion, and,
  when the table is in the order of its join times, in the order of their join times.
\<close>

theorem get_all_user_ids_active_once:
  assumes "primary_key tbl" and "mset (scan tbl) = mset tbl"
  shows "set (get_all_user_ids scan tbl) = {u. \<exists>r \<in> set tbl. user_id r = u \<and> active r} \<and>
         distinct (get_all_user_ids scan tbl) \<and>
         mset (get_all_user_ids scan tbl) = mset (map user_id (filter active tbl)) \<and>
         get_all_user_ids scan tbl
           = filter (\<lambda>u. \<exists>r \<in> set tbl. user_id r = u \<and> active r) (map user_id (scan tbl)) \<and>
         (scan tbl = tbl \<longrightarrow>
            get_all_user_ids scan tbl
              = filter (\<lambda>u. \<exists>r \<in> set tbl. user_id r = u \<and> active r) (map user_id tbl) \<and>
            (sorted (map joined tbl) \<longrightarrow>
               (\<exists>rows. get_all_user_ids scan tbl = map user_id rows \<and>
                  sorted (map joined rows) \<and> set rows = {r \<in> set tbl. active r})))"
proof -
  have st: "set (scan tbl) = set tbl" using assms(2) by (rule mset_eq_setD)
  have "mset (map user_id (scan tbl)) = mset (map user_id tbl)" using assms(2) by simp
  then have d: "distinct (map user_id (scan tbl))"
    using assms(1) unfolding primary_key_def by (metis mset_eq_imp_distinct_iff)
  have a: "set (get_all_user_ids scan tbl) = {u. \<exists>r \<in> set tbl. user_id r = u \<and> active r}"
    using st by (auto simp: get_all_user_ids_def)
  have b: "distinct (get_all_user_ids scan tbl)"
    using d by (simp add: get_all_user_ids_def distinct_map_filter)
  have "mset (filter active (scan tbl)) = mset (filter active tbl)"
    using assms(2) by (metis mset_filter)
  then have c: "mset (get_all_user_ids scan tbl) = mset (map user_id (filter active tbl))"
    by (metis get_all_user_ids_def mset_map)
  have e: "get_all_user_ids scan tbl
      = filter (\<lambda>u. \<exists>r \<in> set tbl. user_id r = u \<and> active r) (map user_id (scan tbl))"
    using active_ids_filter [OF d] by (simp add: get_all_user_ids_def st)
  have f: "\<exists>rows. get_all_user_ids scan tbl = map user_id rows \<and>
      sorted (map joined rows) \<and> set rows = {r \<in> set tbl. active r}"
    if "scan tbl = tbl" "sorted (map joined tbl)"
  proof -
    from that(2) have "sorted (map joined (filter active tbl))"
      by (simp add: sorted_map sorted_wrt_filter)
    then show ?thesis
      using that(1) by (intro exI [of _ "filter active tbl"]) (simp add: get_all_user_ids_def)
  qed
  from a b c e f show ?thesis by auto
qed

theorem get_all_user_ids_active_once_witness:
  "primary_key [row 1 10 True, row 2 20 False, row 3 30 True] \<and>
   mset (rewritten_last 1 [row 1 10 True, row 2 20 False, row 3 30 True])
     = mset [row 1 10 True, row 2 20 False, row 3 30 True] \<and>
   get_all_user_ids (rewritten_last 1) [row 1 10 True, row 2 20 False, row 3 30 True] = [3, 1] \<and>
   distinct (get_all_user_ids (rewritten_last 1) [row 1 10 True, row 2 20 False, row 3 30 True])"
proof -
  have pk: "primary_key [row 1 10 True, row 2 20 False, row 3 30 True]"
    by (simp add: primary_key_def row_def)
  have pm: "mset (rewritten_last 1 [row 1 10 True, row 2 20 False, row 3 30 True])
      = mset [row 1 10 True, row 2 20 False, row 3 30 True]"
    by (rule rewritten_last_mset)
  have ev: "get_all_user_ids (rewritten_last 1) [row 1 10 True, row 2 20 False, row 3 30 True]
      = [3, 1]"
    by (simp add: row_def get_all_user_ids_def rewritten_last_def)
  from get_all_user_ids_active_once
    [of "[row 1 10 True, row 2 20 False, row 3 30 True]" "rewritten_last 1", OF pk pm]
  have "distinct (get_all_user_ids (rewritten_last 1) [row 1 10 True, row 2 20 False, row 3 30 True])"
    by blast
  with pk pm ev show ?thesis by blast
qed

section \<open>Registry: statistics\<close>

text \<open>
  C7. \<open>get_stats\<close> returns the number of rows, the number of active rows, and, when no
  row has joined after the time of the call, the number of rows that joined less than 24
  hours before it. A row that joined 25 hours before the call does not count among the
  new ones; a row that joined 1 hour before the call counts.
\<close>

theorem get_stats_counts:
  assumes "\<forall>r \<in> set tbl. joined r \<le> now"
  shows "total (get_stats now tbl) = length tbl \<and>
         active_count (get_stats now tbl) = length (filter active tbl) \<and>
         new_24h (get_stats now tbl)
           = length (filter (\<lambda>r. 0 \<le> now - joined r \<and> now - joined r < hours 24) tbl) \<and>
         (\<forall>r. joined r = now - hours 25 \<longrightarrow>
            new_24h (get_stats now (tbl @ [r])) = new_24h (get_stats now tbl)) \<and>
         (\<forall>r. joined r = now - hours 1 \<longrightarrow>
            new_24h (get_stats now (tbl @ [r])) = new_24h (get_stats now tbl) + 1)"
proof -
  have "filter (\<lambda>r. now - hours 24 < joined r) tbl
      = filter (\<lambda>r. 0 \<le> now - joined r \<and> now - joined r < hours 24) tbl"
    using assms by (intro filter_cong) auto
  then show ?thesis
    by (simp add: get_stats_def Let_def hours_def)
qed


theorem get_stats_counts_witness:
  "joined (row 1 (hours 100 - hours 25) True) \<le> hours 100 \<and>
   joined (row 2 (hours 100 - hours 1) False) \<le> hours 100 \<and>
   total (get_stats (hours 100) [row 1 (hours 100 - hours 25) True, row 2 (hours 100 - hours 1) False]) = 2 \<and>
   active_count (get_stats (hours 100) [row 1 (hours 100 - hours 25) True, row 2 (hours 100 - hours 1) False]) = 1 \<and>
   new_24h (get_stats (hours 100) [row 1 (hours 100 - hours 25) True, row 2 (hours 100 - hours 1) False]) = 1"
proof -
  have h: "\<forall>r \<in> set [row 1 (hours 100 - hours 25) True, row 2 (hours 100 - hours 1) False].
      joined r \<le> hours 100"
    by (simp add: row_def hours_def)
  from get_stats_counts [OF h] show ?thesis
    by (simp add: row_def hours_def)
qed

section \<open>Registry: export\<close>

lemma export_users_mset: "mset (export_users tbl) = mset tbl"
  by (simp add: export_users_def)

lemma export_users_sorted_desc:
  "sorted_wrt (\<lambda>r s. joined s \<le> joined r) (export_users tbl)"
proof -
  have "sorted (map (\<lambda>r. - joined r) (export_users tbl))"
    by (simp add: export_users_def)
  then show ?thesis by (simp add: sorted_map)
qed

lemma filter_key_single:
  "distinct (map f xs) \<Longrightarrow> k \<in> set xs \<Longrightarrow> filter (\<lambda>x. f k = f x) xs = [k]"
proof (induction xs)
  case Nil
  then show ?case by simp
next
  case (Cons a xs)
  show ?case
  proof (cases "k = a")
    case True
    from Cons.prems have "\<forall>x \<in> set xs. f a \<noteq> f x" by auto
    then have "filter (\<lambda>x. f a = f x) xs = []" by (simp add: filter_empty_conv)
    with True show ?thesis by simp
  next
    case False
    with Cons.prems have "k \<in> set xs" "f k \<noteq> f a" by (auto simp: image_iff)
    with Cons show ?thesis by simp
  qed
qed

lemma export_users_unique:
  assumes d: "distinct (map joined tbl)"
    and m: "mset rows = mset tbl"
    and s: "sorted_wrt (\<lambda>r s. joined s \<le> joined r) rows"
  shows "rows = export_users tbl"
proof -
  let ?f = "\<lambda>r. - joined r"
  have dt: "distinct (map ?f tbl)"
    using d by (simp add: distinct_map inj_on_def)
  have "mset (map ?f rows) = mset (map ?f tbl)" using m by simp
  then have dr: "distinct (map ?f rows)"
    using dt by (metis mset_eq_imp_distinct_iff)
  have st: "set rows = set tbl" using m by (rule mset_eq_setD)
  have "sort_key ?f tbl = rows"
  proof (rule properties_for_sort_key)
    show "mset rows = mset tbl" by (rule m)
    show "sorted (map ?f rows)" using s by (simp add: sorted_map)
    fix k assume k: "k \<in> set rows"
    then have "filter (\<lambda>x. ?f k = ?f x) rows = [k]" using dr by (rule filter_key_single [rotated])
    moreover from k st have "k \<in> set tbl" by simp
    then have "filter (\<lambda>x. ?f k = ?f x) tbl = [k]" using dt by (rule filter_key_single [rotated])
    ultimately show "filter (\<lambda>x. ?f k = ?f x) rows = filter (\<lambda>x. ?f k = ?f x) tbl" by simp
  qed
  then show ?thesis by (simp add: export_users_def)
qed

lemma three_inserts:
  assumes "a \<noteq> b" "a \<noteq> c" "b \<noteq> c"
  shows "add_user tC c unC fnC (add_user tB b unB fnB (add_user tA a unA fnA [])) =
     [\<lparr>user_id = a, username = unA, first_name = fnA, joined = tA, active = True\<rparr>,
      \<lparr>user_id = b, username = unB, first_name = fnB, joined = tB, active = True\<rparr>,
      \<lparr>user_id = c, username = unC, first_name = fnC, joined = tC, active = True\<rparr>]"
  using assms by (simp add: add_user_def)

text \<open>
  C6. \<open>export_users\<close> returns every row of the table, active or not, each as often as
  it is in the table, in the descending order of the join times. On a new table, inserting
  the ids \<open>a\<close>, \<open>b\<close>, \<open>c\<close>, in that order, at join times that increase, gives the export
  order \<open>c\<close>, \<open>b\<close>, \<open>a\<close>; a row made inactive stays in the export; and every
  arrangement of these rows in descending order of the join times has that order of ids,
  so the order does not depend on how rows of equal join time are placed.
\<close>

theorem export_users_descending_complete:
  "mset (export_users tbl) = mset tbl \<and>
   sorted_wrt (\<lambda>r s. joined s \<le> joined r) (export_users tbl) \<and>
   (a \<noteq> b \<and> a \<noteq> c \<and> b \<noteq> c \<and> tA < tB \<and> tB < tC \<longrightarrow>
      map user_id (export_users
         (add_user tC c unC fnC (add_user tB b unB fnB (add_user tA a unA fnA (init_db None)))))
        = [c, b, a] \<and>
      map (\<lambda>r. (user_id r, active r)) (export_users (mark_inactive b
         (add_user tC c unC fnC (add_user tB b unB fnB (add_user tA a unA fnA (init_db None))))))
        = [(c, True), (b, False), (a, True)] \<and>
      (\<forall>rows. mset rows = mset
           (add_user tC c unC fnC (add_user tB b unB fnB (add_user tA a unA fnA (init_db None)))) \<and>
         sorted_wrt (\<lambda>r s. joined s \<le> joined r) rows \<longrightarrow> map user_id rows = [c, b, a]))"
proof (intro conjI impI allI)
  show "mset (export_users tbl) = mset tbl" by (rule export_users_mset)
  show "sorted_wrt (\<lambda>r s. joined s \<le> joined r) (export_users tbl)"
    by (rule export_users_sorted_desc)
next
  assume h: "a \<noteq> b \<and> a \<noteq> c \<and> b \<noteq> c \<and> tA < tB \<and> tB < tC"
  let ?tbl = "add_user tC c unC fnC (add_user tB b unB fnB (add_user tA a unA fnA (init_db None)))"
  have t: "?tbl =
     [\<lparr>user_id = a, username = unA, first_name = fnA, joined = tA, active = True\<rparr>,
      \<lparr>user_id = b, username = unB, first_name = fnB, joined = tB, active = True\<rparr>,
      \<lparr>user_id = c, username = unC, first_name = fnC, joined = tC, active = True\<rparr>]"
    using h by (simp add: three_inserts init_db_def)
  show e: "map user_id (export_users ?tbl) = [c, b, a]"
    using h unfolding t by (simp add: export_users_def)
  show "map (\<lambda>r. (user_id r, active r)) (export_users (mark_inactive b ?tbl))
      = [(c, True), (b, False), (a, True)]"
    using h unfolding t by (simp add: export_users_def mark_inactive_def)
  fix rows
  assume r: "mset rows = mset ?tbl \<and> sorted_wrt (\<lambda>r s. joined s \<le> joined r) rows"
  have "distinct (map joined ?tbl)" using h unfolding t by auto
  then have "rows = export_users ?tbl"
    using r by (intro export_users_unique) simp_all
  then show "map user_id rows = [c, b, a]" using e by simp
qed

theorem export_users_three_inserts_witness:
  "(1::int) \<noteq> 2 \<and> (1::int) \<noteq> 3 \<and> (2::int) \<noteq> 3 \<and> (10::int) < 20 \<and> (20::int) < 30 \<and>
   map user_id (export_users
     (add_user 30 3 None None (add_user 20 2 None None (add_user 10 1 None None (init_db None)))))
     = [3, 2, 1]"
proof -
  have h: "(1::int) \<noteq> 2 \<and> (1::int) \<noteq> 3 \<and> (2::int) \<noteq> 3 \<and> (10::int) < 20 \<and> (20::int) < 30"
    by simp
  from export_users_descending_complete [of _ 1 2 3 10 20 30 None None None None None None] h
  show ?thesis by blast
qed

section \<open>The privileged commands\<close>

lemma calls_emit: "calls (emit c w) = calls w @ [c]"
  by (simp add: emit_def)

lemma users_emit: "users (emit c w) = users w"
  by (simp add: emit_def)

lemma attempt_cases:
  "attempt tg txt uid (s, f, w) =
     (case send_message_raises tg uid txt of
        None \<Rightarrow> (s + 1, f, emit (SendMessage uid txt) w)
      | Some e \<Rightarrow> (s, f + 1,
          if contains (lower e) ''blocked'' \<or> contains (lower e) ''deactivated''
          then (emit (SendMessage uid txt) w)\<lparr>users := mark_inactive uid (users w)\<rparr>
          else emit (SendMessage uid txt) w))"
  by (simp add: attempt_def Let_def users_emit split: option.splits)

lemma attempt_calls:
  "attempt tg txt uid (s, f, w) = (s', f', w') \<Longrightarrow> calls w' = calls w @ [SendMessage uid txt]"
  by (auto simp: attempt_cases calls_emit split: option.splits if_splits)

lemma loop_sends:
  "broadcast_loop tg txt n i ids (s, f, w) = (s', f', w') \<Longrightarrow>
   filter is_send (calls w') = filter is_send (calls w) @ map (\<lambda>u. SendMessage u txt) ids"
proof (induction ids arbitrary: i s f w)
  case Nil
  then show ?case by simp
next
  case (Cons u ids)
  obtain s1 f1 w1 where a: "attempt tg txt u (s, f, w) = (s1, f1, w1)"
    by (metis prod_cases3)
  let ?w2 = "emit Sleep (if (i + 1) mod 20 = 0 then emit (EditText (BroadcastProgress (i + 1) n)) w1 else w1)"
  from Cons.prems a have "broadcast_loop tg txt n (i + 1) ids (s1, f1, ?w2) = (s', f', w')"
    by (simp add: Let_def)
  from Cons.IH [OF this]
  have "filter is_send (calls w') = filter is_send (calls ?w2) @ map (\<lambda>u. SendMessage u txt) ids" .
  moreover have "filter is_send (calls ?w2) = filter is_send (calls w1)"
    by (simp add: calls_emit)
  moreover have "calls w1 = calls w @ [SendMessage u txt]"
    using a by (rule attempt_calls)
  ultimately show ?case by simp
qed

lemma loop_prefix:
  "broadcast_loop tg txt n i ids (s, f, w) = (s', f', w') \<Longrightarrow>
   \<exists>ext. calls w' = calls w @ ext"
proof (induction ids arbitrary: i s f w)
  case Nil
  then show ?case by simp
next
  case (Cons u ids)
  obtain s1 f1 w1 where a: "attempt tg txt u (s, f, w) = (s1, f1, w1)"
    by (metis prod_cases3)
  let ?w2 = "emit Sleep (if (i + 1) mod 20 = 0 then emit (EditText (BroadcastProgress (i + 1) n)) w1 else w1)"
  from Cons.prems a have "broadcast_loop tg txt n (i + 1) ids (s1, f1, ?w2) = (s', f', w')"
    by (simp add: Let_def)
  from Cons.IH [OF this] obtain ext where "calls w' = calls ?w2 @ ext" by blast
  moreover have "\<exists>e2. calls ?w2 = calls w1 @ e2"
    by (simp add: calls_emit)
  moreover have "calls w1 = calls w @ [SendMessage u txt]"
    using a by (rule attempt_calls)
  ultimately show ?case by auto
qed

lemma broadcast_operator:
  assumes "ADMIN_ID cfg = 0 \<or> from_user_id m = ADMIN_ID cfg"
  shows "cmd_broadcast tg scan cfg m w =
     (let txt = strip (replace ''/broadcast'' [] (message_text m))
         in if txt = [] then emit (Answer BroadcastUsage) w
            else
              (let user_ids = get_all_user_ids scan (users w);
                   w1 = emit (Answer (BroadcastStarted (length user_ids))) w
               in case broadcast_loop tg txt (length user_ids) 0 user_ids (0, 0, w1) of
                    (sent, failed, w2) \<Rightarrow> emit (EditText (BroadcastDone sent failed)) w2))"
  using assms by (auto simp: cmd_broadcast_def)

text \<open>
  C2, as stated, fails: with \<^verbatim>\<open>ADMIN_ID\<close> equal to 0 the check
  \<^verbatim>\<open>if ADMIN_ID and ...\<close> is skipped, so a caller whose id (5) differs from the
  configured id (0) gets the statistics, and their broadcast runs and deactivates the
  recipient that has blocked the bot.
\<close>

theorem privileged_commands_unset_admin_counterexample:
  "from_user_id (sender 5 ''/stats'') \<noteq> ADMIN_ID \<lparr>ADMIN_ID = 0\<rparr> \<and>
   calls (cmd_stats \<lparr>ADMIN_ID = 0\<rparr> 0 (sender 5 ''/stats'') \<lparr>users = [], calls = []\<rparr>)
     = [Answer (StatsText \<lparr>total = 0, new_24h = 0, active_count = 0\<rparr>)] \<and>
   cmd_broadcast (blocking_platform [8]) insertion_order \<lparr>ADMIN_ID = 0\<rparr> (sender 5 ''/broadcast hi'')
       \<lparr>users = [row 8 0 True], calls = []\<rparr>
     = \<lparr>users = [row 8 0 False],
        calls = [Answer (BroadcastStarted 1), SendMessage 8 ''hi'', Sleep,
                 EditText (BroadcastDone 0 1)]\<rparr>"
  by code_simp

text \<open>
  C2, amended. When the configured operator id is not 0 and the caller's id differs from
  it, \<^verbatim>\<open>/stats\<close>, \<^verbatim>\<open>/export\<close> and \<^verbatim>\<open>/broadcast\<close> return the state they were
  given: no call is made on the chat platform and the table is not changed.
\<close>

theorem privileged_commands_reject_non_operator:
  assumes "ADMIN_ID cfg \<noteq> 0" and "from_user_id m \<noteq> ADMIN_ID cfg"
  shows "cmd_stats cfg now m w = w \<and> cmd_export tg cfg now m w = w \<and> cmd_broadcast tg scan cfg m w = w"
  using assms by (simp add: cmd_stats_def cmd_export_def cmd_broadcast_def)

theorem privileged_commands_reject_witness:
  "ADMIN_ID \<lparr>ADMIN_ID = 1\<rparr> \<noteq> 0 \<and> from_user_id (sender 5 ''/stats'') \<noteq> ADMIN_ID \<lparr>ADMIN_ID = 1\<rparr> \<and>
   cmd_stats \<lparr>ADMIN_ID = 1\<rparr> 0 (sender 5 ''/stats'') \<lparr>users = [row 5 0 True], calls = []\<rparr>
     = \<lparr>users = [row 5 0 True], calls = []\<rparr> \<and>
   cmd_export quiet_platform \<lparr>ADMIN_ID = 1\<rparr> 0 (sender 5 ''/stats'') \<lparr>users = [row 5 0 True], calls = []\<rparr>
     = \<lparr>users = [row 5 0 True], calls = []\<rparr> \<and>
   cmd_broadcast quiet_platform insertion_order \<lparr>ADMIN_ID = 1\<rparr> (sender 5 ''/stats'') \<lparr>users = [row 5 0 True], calls = []\<rparr>
     = \<lparr>users = [row 5 0 True], calls = []\<rparr>"
  using privileged_commands_reject_non_operator [of "\<lparr>ADMIN_ID = 1\<rparr>" "sender 5 ''/stats''" 0
      "\<lparr>users = [row 5 0 True], calls = []\<rparr>" quiet_platform insertion_order]
  by (simp add: sender_def)

text \<open>
  C10. When \<^verbatim>\<open>ADMIN_ID\<close> is 0, the three privileged handlers treat every caller as
  the operator: each returns what it returns when the caller is the configured operator,
  and the body runs: \<^verbatim>\<open>/stats\<close> answers with the statistics, \<^verbatim>\<open>/export\<close> and
  \<^verbatim>\<open>/broadcast\<close> make at least one call on the chat platform.
\<close>

theorem unset_admin_id_skips_check:
  assumes "ADMIN_ID cfg = 0"
  shows "cmd_stats cfg now m w = cmd_stats (cfg\<lparr>ADMIN_ID := from_user_id m\<rparr>) now m w \<and>
         cmd_export tg cfg now m w = cmd_export tg (cfg\<lparr>ADMIN_ID := from_user_id m\<rparr>) now m w \<and>
         cmd_broadcast tg scan cfg m w = cmd_broadcast tg scan (cfg\<lparr>ADMIN_ID := from_user_id m\<rparr>) m w \<and>
         cmd_stats cfg now m w = emit (Answer (StatsText (get_stats now (users w)))) w \<and>
         length (calls w) < length (calls (cmd_export tg cfg now m w)) \<and>
         length (calls w) < length (calls (cmd_broadcast tg scan cfg m w))"
proof -
  have "length (calls w) < length (calls (cmd_export tg cfg now m w))"
    using assms by (simp add: cmd_export_def Let_def calls_emit split: option.splits)
  moreover have "length (calls w) < length (calls (cmd_broadcast tg scan cfg m w))"
  proof (cases "strip (replace ''/broadcast'' [] (message_text m)) = []")
    case True
    then show ?thesis using assms by (simp add: broadcast_operator calls_emit)
  next
    case False
    let ?txt = "strip (replace ''/broadcast'' [] (message_text m))"
    let ?ids = "get_all_user_ids scan (users w)"
    let ?w1 = "emit (Answer (BroadcastStarted (length ?ids))) w"
    obtain s f w2 where l: "broadcast_loop tg ?txt (length ?ids) 0 ?ids (0, 0, ?w1) = (s, f, w2)"
      by (metis prod_cases3)
    from loop_prefix [OF l] obtain ext where "calls w2 = calls ?w1 @ ext" by blast
    moreover have "cmd_broadcast tg scan cfg m w = emit (EditText (BroadcastDone s f)) w2"
      using assms False l by (simp add: broadcast_operator Let_def)
    ultimately show ?thesis by (simp add: calls_emit)
  qed
  ultimately show ?thesis
    using assms by (simp add: cmd_stats_def cmd_export_def cmd_broadcast_def)
qed

theorem unset_admin_id_skips_check_witness:
  "ADMIN_ID \<lparr>ADMIN_ID = 0\<rparr> = 0 \<and>
   cmd_stats \<lparr>ADMIN_ID = 0\<rparr> 0 (sender 5 ''/stats'') \<lparr>users = [], calls = []\<rparr>
     = emit (Answer (StatsText (get_stats 0 (users \<lparr>users = [], calls = []\<rparr>))))
         \<lparr>users = [], calls = []\<rparr> \<and>
   length (calls \<lparr>users = [], calls = []\<rparr>)
     < length (calls (cmd_broadcast quiet_platform insertion_order \<lparr>ADMIN_ID = 0\<rparr> (sender 5 ''/stats'')
         \<lparr>users = [], calls = []\<rparr>))"
proof -
  have h: "ADMIN_ID \<lparr>ADMIN_ID = 0\<rparr> = 0" by simp
  from unset_admin_id_skips_check [OF h, of 0 "sender 5 ''/stats''" "\<lparr>users = [], calls = []\<rparr>"
      quiet_platform insertion_order]
  show ?thesis using h by blast
qed

text \<open>
  What \<^verbatim>\<open>cmd_broadcast\<close> does with the text it computes, for a caller that passes
  the check: when what is left of the message after removing every \<^verbatim>\<open>/broadcast\<close> and
  stripping is empty, the handler answers with the usage text and does nothing else;
  when it is not empty, the handler announces the broadcast with the size of the snapshot
  and attempts one delivery of that text to each id of the snapshot, in its order.
\<close>

lemma broadcast_dispatch:
  assumes "ADMIN_ID cfg = 0 \<or> from_user_id m = ADMIN_ID cfg"
  shows "(strip (replace ''/broadcast'' [] (message_text m)) = [] \<longrightarrow>
            cmd_broadcast tg scan cfg m w = emit (Answer BroadcastUsage) w) \<and>
         (strip (replace ''/broadcast'' [] (message_text m)) \<noteq> [] \<longrightarrow>
            take (Suc (length (calls w))) (calls (cmd_broadcast tg scan cfg m w))
              = calls w @ [Answer (BroadcastStarted (length (get_all_user_ids scan (users w))))] \<and>
            filter is_send (calls (cmd_broadcast tg scan cfg m w))
              = filter is_send (calls w) @
                map (\<lambda>u. SendMessage u (strip (replace ''/broadcast'' [] (message_text m))))
                  (get_all_user_ids scan (users w)))"
proof (intro conjI impI)
  assume "strip (replace ''/broadcast'' [] (message_text m)) = []"
  then show "cmd_broadcast tg scan cfg m w = emit (Answer BroadcastUsage) w"
    using assms by (simp add: broadcast_operator)
next
  let ?txt = "strip (replace ''/broadcast'' [] (message_text m))"
  let ?ids = "get_all_user_ids scan (users w)"
  let ?w1 = "emit (Answer (BroadcastStarted (length ?ids))) w"
  assume ne: "?txt \<noteq> []"
  obtain s f w2 where l: "broadcast_loop tg ?txt (length ?ids) 0 ?ids (0, 0, ?w1) = (s, f, w2)"
    by (metis prod_cases3)
  have r: "cmd_broadcast tg scan cfg m w = emit (EditText (BroadcastDone s f)) w2"
    using assms ne l by (simp add: broadcast_operator Let_def)
  from loop_prefix [OF l] obtain ext where ext: "calls w2 = calls ?w1 @ ext" by blast
  show "take (Suc (length (calls w))) (calls (cmd_broadcast tg scan cfg m w))
      = calls w @ [Answer (BroadcastStarted (length ?ids))]"
    by (simp add: r calls_emit ext)
  show "filter is_send (calls (cmd_broadcast tg scan cfg m w))
      = filter is_send (calls w) @ map (\<lambda>u. SendMessage u ?txt) ?ids"
    using loop_sends [OF l] by (simp add: r calls_emit)
qed


text \<open>
  C9. The text of the command is what the operator writes after \<^verbatim>\<open>/broadcast\<close>
  (\<open>command_text\<close>). The handler does not take that text: it removes every occurrence of
  \<^verbatim>\<open>/broadcast\<close> from the message. For the message \<^verbatim>\<open>/broadcast /broadcast\<close> the text
  of the command is \<^verbatim>\<open>/broadcast\<close>, not empty, and the handler answers with the usage
  text and attempts no delivery to the active account. For the message
  \<^verbatim>\<open>/broadcast@UpscalerBot\<close>, which holds nothing but the command word and the name of
  the bot, the handler attempts the delivery of \<^verbatim>\<open>@UpscalerBot\<close> to the active account.
\<close>

theorem broadcast_text_with_command_gets_usage:
  "command_text ''/broadcast /broadcast'' = ''/broadcast'' \<and>
   cmd_broadcast quiet_platform insertion_order \<lparr>ADMIN_ID = 5\<rparr> (sender 5 ''/broadcast /broadcast'')
       \<lparr>users = [row 8 0 True], calls = []\<rparr>
     = \<lparr>users = [row 8 0 True], calls = [Answer BroadcastUsage]\<rparr> \<and>
   cmd_broadcast quiet_platform insertion_order \<lparr>ADMIN_ID = 5\<rparr> (sender 5 ''/broadcast@UpscalerBot'')
       \<lparr>users = [row 8 0 True], calls = []\<rparr>
     = \<lparr>users = [row 8 0 True],
        calls = [Answer (BroadcastStarted 1), SendMessage 8 ''@UpscalerBot'', Sleep,
                 EditText (BroadcastDone 1 0)]\<rparr>"
  by code_simp

section \<open>The HTTP endpoint: a request with no image\<close>

lemma read_image_no_image:
  "\<forall>p \<in> set parts. fst p \<noteq> Some ''image'' \<Longrightarrow> read_image acc parts = acc"
  by (induction parts arbitrary: acc) auto

text \<open>
  C5. A request to \<^verbatim>\<open>/upscale\<close> whose multipart body has no part named
  \<^verbatim>\<open>image\<close> gets the status 400 with a key \<^verbatim>\<open>error\<close> in the JSON body, and no
  request is made to the provider.
\<close>

theorem upscale_missing_image_400:
  assumes "\<forall>p \<in> set parts. fst p \<noteq> Some ''image''"
  shows "status (fst (handle_upscale deepai (Inr parts))) = 400 \<and>
         ''error'' \<in> fst ` set (body (fst (handle_upscale deepai (Inr parts)))) \<and>
         snd (handle_upscale deepai (Inr parts)) = []"
  using read_image_no_image [OF assms, of None]
  by (simp add: handle_upscale_def json_response_def)

theorem upscale_missing_image_witness:
  "Some ''file'' \<noteq> Some ''image'' \<and> None \<noteq> Some ''image'' \<and>
   handle_upscale stub_provider (Inr [(Some ''file'', ''abc''), (None, ''x'')])
     = (\<lparr>status = 400, body = [(''error'', JStr ''No image provided'')]\<rparr>, [])"
proof -
  have h: "\<forall>p \<in> set [(Some ''file'', ''abc''), (None, ''x'')]. fst p \<noteq> Some ''image''"
    by simp
  from upscale_missing_image_400 [OF h, of stub_provider] show ?thesis
    by (simp add: handle_upscale_def json_response_def)
qed

section \<open>The broadcast\<close>

lemma ids_mark_inactive: "map user_id (mark_inactive uid tbl) = map user_id tbl"
  by (induction tbl) (auto simp: mark_inactive_def)

lemma active_ids_mark_inactive:
  "map user_id (filter active (mark_inactive uid tbl))
     = filter (\<lambda>v. v \<noteq> uid) (map user_id (filter active tbl))"
  by (induction tbl) (auto simp: mark_inactive_def)

lemma attempt_result:
  "attempt tg txt uid (s, f, w) = (s', f', w') \<Longrightarrow>
   s' = s + (if send_message_raises tg uid txt = None then 1 else 0) \<and>
   f' = f + (if send_message_raises tg uid txt = None then 0 else 1) \<and>
   users w' = (if fails_permanently tg txt uid then mark_inactive uid (users w) else users w)"
  by (auto simp: attempt_cases fails_permanently_def users_emit split: option.splits if_splits)

lemma loop_result:
  "broadcast_loop tg txt n i ids (s, f, w) = (s', f', w') \<Longrightarrow>
   s' = s + length (filter (\<lambda>u. send_message_raises tg u txt = None) ids) \<and>
   f' = f + length (filter (\<lambda>u. send_message_raises tg u txt \<noteq> None) ids) \<and>
   map user_id (filter active (users w'))
     = filter (\<lambda>v. \<not> (v \<in> set ids \<and> fails_permanently tg txt v))
         (map user_id (filter active (users w))) \<and>
   map user_id (users w') = map user_id (users w)"
proof (induction ids arbitrary: i s f w)
  case Nil
  then show ?case by simp
next
  case (Cons u ids)
  obtain s1 f1 w1 where a: "attempt tg txt u (s, f, w) = (s1, f1, w1)"
    by (metis prod_cases3)
  let ?w2 = "emit Sleep (if (i + 1) mod 20 = 0 then emit (EditText (BroadcastProgress (i + 1) n)) w1 else w1)"
  have u2: "users ?w2 = users w1" by (simp add: users_emit)
  from Cons.prems a have "broadcast_loop tg txt n (i + 1) ids (s1, f1, ?w2) = (s', f', w')"
    by (simp add: Let_def)
  note ih = Cons.IH [OF this, unfolded u2]
  note st = attempt_result [OF a]
  have s: "s' = s + length (filter (\<lambda>u. send_message_raises tg u txt = None) (u # ids))"
    using ih st by simp
  have f: "f' = f + length (filter (\<lambda>u. send_message_raises tg u txt \<noteq> None) (u # ids))"
    using ih st by simp
  have ids: "map user_id (users w') = map user_id (users w)"
    using ih st by (simp add: ids_mark_inactive)
  have "map user_id (filter active (users w1))
      = filter (\<lambda>v. \<not> (v = u \<and> fails_permanently tg txt v)) (map user_id (filter active (users w)))"
    using st by (auto simp: active_ids_mark_inactive intro: filter_cong)
  moreover have "map user_id (filter active (users w'))
      = filter (\<lambda>v. \<not> (v \<in> set ids \<and> fails_permanently tg txt v))
          (map user_id (filter active (users w1)))"
    using ih by simp
  ultimately have act: "map user_id (filter active (users w'))
      = filter (\<lambda>v. \<not> (v \<in> set (u # ids) \<and> fails_permanently tg txt v))
          (map user_id (filter active (users w)))"
    by (auto intro: filter_cong)
  from s f ids act show ?case by blast
qed

text \<open>
  C1. A broadcast with a text that is not empty, by a caller that passes the check, on a
  table that respects its primary key, with no other handler running in between, whatever
  the order in which the store returns the rows, each once. The snapshot is the list of
  the \<open>N\<close> active ids. When the delivery to the ids of a set \<open>S\<close> of the snapshot raises
  with a reason that contains \<^verbatim>\<open>blocked\<close> or \<^verbatim>\<open>deactivated\<close> (in any case of the
  letters) and every other delivery returns, the loop ends with \<open>sent = N - |S|\<close> and
  \<open>failed = |S|\<close>, the last call edits the status message to the summary with these two
  counts, the active ids of the table are then those it had outside \<open>S\<close>, in the same
  order, a later query returns the ids of the snapshot outside \<open>S\<close>, and no row is
  removed: the ids of \<open>S\<close> are in the table, flagged inactive.
\<close>

theorem broadcast_counts_and_deactivates:
  assumes pk: "primary_key (users w)"
    and pm: "mset (scan (users w)) = mset (users w)"
    and op: "ADMIN_ID cfg = 0 \<or> from_user_id m = ADMIN_ID cfg"
    and msg: "strip (replace ''/broadcast'' [] (message_text m)) = txt" "txt \<noteq> []"
    and sub: "S \<subseteq> set (get_all_user_ids scan (users w))"
    and bad: "\<forall>u \<in> S. \<exists>e. send_message_raises tg u txt = Some e \<and>
                 (contains (lower e) ''blocked'' \<or> contains (lower e) ''deactivated'')"
    and good: "\<forall>u \<in> set (get_all_user_ids scan (users w)) - S. send_message_raises tg u txt = None"
  shows "fst (broadcast_loop tg txt (length (get_all_user_ids scan (users w))) 0
              (get_all_user_ids scan (users w))
              (0, 0, emit (Answer (BroadcastStarted (length (get_all_user_ids scan (users w))))) w))
           = length (get_all_user_ids scan (users w)) - card S \<and>
         fst (snd (broadcast_loop tg txt (length (get_all_user_ids scan (users w))) 0
              (get_all_user_ids scan (users w))
              (0, 0, emit (Answer (BroadcastStarted (length (get_all_user_ids scan (users w))))) w)))
           = card S \<and>
         last (calls (cmd_broadcast tg scan cfg m w))
           = EditText (BroadcastDone (length (get_all_user_ids scan (users w)) - card S) (card S)) \<and>
         map user_id (filter active (users (cmd_broadcast tg scan cfg m w)))
           = filter (\<lambda>u. u \<notin> S) (map user_id (filter active (users w))) \<and>
         (mset (scan (users (cmd_broadcast tg scan cfg m w))) = mset (users (cmd_broadcast tg scan cfg m w))
            \<longrightarrow> set (get_all_user_ids scan (users (cmd_broadcast tg scan cfg m w)))
                   = set (get_all_user_ids scan (users w)) - S) \<and>
         map user_id (users (cmd_broadcast tg scan cfg m w)) = map user_id (users w)"
proof -
  let ?ids = "get_all_user_ids scan (users w)"
  let ?act = "map user_id (filter active (users w))"
  let ?w1 = "emit (Answer (BroadcastStarted (length ?ids))) w"
  let ?r = "cmd_broadcast tg scan cfg m w"
  obtain s f w2 where l: "broadcast_loop tg txt (length ?ids) 0 ?ids (0, 0, ?w1) = (s, f, w2)"
    by (metis prod_cases3)
  have r: "?r = emit (EditText (BroadcastDone s f)) w2"
    using op msg l by (simp add: broadcast_operator Let_def)
  note res = loop_result [OF l]
  have "mset (map user_id (scan (users w))) = mset (map user_id (users w))" using pm by simp
  then have "distinct (map user_id (scan (users w)))"
    using pk unfolding primary_key_def by (metis mset_eq_imp_distinct_iff)
  then have d: "distinct ?ids"
    by (simp add: get_all_user_ids_def distinct_map_filter)
  have "set (scan (users w)) = set (users w)" using pm by (rule mset_eq_setD)
  then have sa: "set ?ids = set ?act" by (auto simp: get_all_user_ids_def)
  have none: "(send_message_raises tg u txt = None) = (u \<notin> S)" if "u \<in> set ?ids" for u
    using that bad good by (cases "u \<in> S") auto
  have perm: "fails_permanently tg txt u = (u \<in> S)" if "u \<in> set ?ids" for u
    using that bad good by (cases "u \<in> S") (auto simp: fails_permanently_def)
  have fS: "filter (\<lambda>u. send_message_raises tg u txt \<noteq> None) ?ids = filter (\<lambda>u. u \<in> S) ?ids"
    using none by (intro filter_cong) auto
  have "set (filter (\<lambda>u. u \<in> S) ?ids) = S" using sub by auto
  moreover have "distinct (filter (\<lambda>u. u \<in> S) ?ids)" using d by simp
  ultimately have cS: "length (filter (\<lambda>u. u \<in> S) ?ids) = card S"
    by (metis distinct_card)
  have f: "f = card S" using res fS cS by simp
  have "length (filter (\<lambda>u. send_message_raises tg u txt = None) ?ids)
        + length (filter (\<lambda>u. \<not> send_message_raises tg u txt = None) ?ids) = length ?ids"
    by (rule sum_length_filter_compl)
  then have s: "s = length ?ids - card S" using res fS cS by simp
  have act: "map user_id (filter active (users w2)) = filter (\<lambda>u. u \<notin> S) ?act"
    using res perm sa by (auto simp: users_emit intro: filter_cong)
  have ids: "map user_id (users w2) = map user_id (users w)"
    using res by (simp add: users_emit)
  have later: "set (get_all_user_ids scan (users ?r)) = set ?ids - S"
    if "mset (scan (users ?r)) = mset (users ?r)"
  proof -
    from that have "set (scan (users ?r)) = set (users ?r)" by (rule mset_eq_setD)
    then have "set (get_all_user_ids scan (users ?r)) = set (map user_id (filter active (users ?r)))"
      by (auto simp: get_all_user_ids_def)
    also have "\<dots> = set (filter (\<lambda>u. u \<notin> S) ?act)"
      using act by (simp add: r users_emit)
    also have "\<dots> = set ?ids - S" using sa by auto
    finally show ?thesis .
  qed
  have "fst (broadcast_loop tg txt (length ?ids) 0 ?ids (0, 0, ?w1)) = length ?ids - card S"
    using s by (simp add: l)
  moreover have "fst (snd (broadcast_loop tg txt (length ?ids) 0 ?ids (0, 0, ?w1))) = card S"
    using f by (simp add: l)
  moreover have "last (calls ?r) = EditText (BroadcastDone (length ?ids - card S) (card S))"
    using s f by (simp add: r calls_emit)
  moreover have "map user_id (filter active (users ?r)) = filter (\<lambda>u. u \<notin> S) ?act"
    using act by (simp add: r users_emit)
  moreover have "map user_id (users ?r) = map user_id (users w)"
    using ids by (simp add: r users_emit)
  ultimately show ?thesis using later by blast
qed

theorem broadcast_counts_witness:
  "primary_key (users six_users) \<and>
   mset (rev (users six_users)) = mset (users six_users) \<and>
   {2, 5} \<subseteq> set (get_all_user_ids rev (users six_users)) \<and>
   last (calls (cmd_broadcast (blocking_platform [2, 5]) rev \<lparr>ADMIN_ID = 9\<rparr>
      (sender 9 ''/broadcast hi'') six_users)) = EditText (BroadcastDone 4 2) \<and>
   map user_id (filter active (users (cmd_broadcast (blocking_platform [2, 5]) rev \<lparr>ADMIN_ID = 9\<rparr>
      (sender 9 ''/broadcast hi'') six_users))) = [1, 3, 4, 6] \<and>
   map user_id (users (cmd_broadcast (blocking_platform [2, 5]) rev \<lparr>ADMIN_ID = 9\<rparr>
      (sender 9 ''/broadcast hi'') six_users)) = [1, 2, 3, 4, 5, 6]"
proof -
  have ids: "get_all_user_ids rev (users six_users) = [6, 5, 4, 3, 2, 1]"
    by (simp add: six_users_def get_all_user_ids_def row_def)
  have act: "map user_id (filter active (users six_users)) = [1, 2, 3, 4, 5, 6]"
    by (simp add: six_users_def row_def)
  have pk: "primary_key (users six_users)"
    by (simp add: six_users_def primary_key_def row_def)
  have pm: "mset (rev (users six_users)) = mset (users six_users)" by simp
  have op: "ADMIN_ID \<lparr>ADMIN_ID = 9\<rparr> = 0 \<or>
      from_user_id (sender 9 ''/broadcast hi'') = ADMIN_ID \<lparr>ADMIN_ID = 9\<rparr>"
    by (simp add: sender_def)
  have msg: "strip (replace ''/broadcast'' [] (message_text (sender 9 ''/broadcast hi''))) = ''hi''"
    by code_simp
  have ne: "''hi'' \<noteq> []" by simp
  have sub: "{2, 5} \<subseteq> set (get_all_user_ids rev (users six_users))"
    by (simp add: ids)
  have blk: "contains (lower ''Telegram server says - Forbidden: bot was blocked by the user'')
      ''blocked''"
    by code_simp
  have bad: "\<forall>u \<in> {2, 5}. \<exists>e. send_message_raises (blocking_platform [2, 5]) u ''hi'' = Some e \<and>
      (contains (lower e) ''blocked'' \<or> contains (lower e) ''deactivated'')"
    using blk by (simp add: blocking_platform_def)
  have good: "\<forall>u \<in> set (get_all_user_ids rev (users six_users)) - {2, 5}.
      send_message_raises (blocking_platform [2, 5]) u ''hi'' = None"
    by (simp add: ids blocking_platform_def)
  have c: "card {2, 5 :: int} = 2" by simp
  have rows: "map user_id (users six_users) = [1, 2, 3, 4, 5, 6]"
    by (simp add: six_users_def row_def)
  note th = broadcast_counts_and_deactivates [OF pk pm op msg ne sub bad good]
  from th have "last (calls (cmd_broadcast (blocking_platform [2, 5]) rev \<lparr>ADMIN_ID = 9\<rparr>
      (sender 9 ''/broadcast hi'') six_users))
      = EditText (BroadcastDone (length (get_all_user_ids rev (users six_users)) - card {2, 5 :: int})
          (card {2, 5 :: int}))"
    by blast
  moreover from th have "map user_id (filter active (users (cmd_broadcast (blocking_platform [2, 5])
      rev \<lparr>ADMIN_ID = 9\<rparr> (sender 9 ''/broadcast hi'') six_users)))
      = filter (\<lambda>u. u \<notin> {2, 5}) (map user_id (filter active (users six_users)))"
    by blast
  moreover from th have "map user_id (users (cmd_broadcast (blocking_platform [2, 5]) rev
      \<lparr>ADMIN_ID = 9\<rparr> (sender 9 ''/broadcast hi'') six_users)) = map user_id (users six_users)"
    by blast
  ultimately show ?thesis
    using pk pm sub by (simp add: ids act c rows)
qed

section \<open>The data of the web application\<close>






end
